theory Spec2Isabelle
  imports Complex_Main "HOL-Library.Sublist"
begin

section \<open>Text\<close>

text \<open>
  A JavaScript string is a sequence of UTF-16 code units. Text is modelled as a
  \<^typ>\<open>string\<close>, each character standing for the code unit of the same value, so the
  model covers the texts whose code units are all below 256.
\<close>

definition upper_letters :: string where
  \<open>upper_letters = ''ABCDEFGHIJKLMNOPQRSTUVWXYZ''\<close>

definition lower_letters :: string where
  \<open>lower_letters = ''abcdefghijklmnopqrstuvwxyz''\<close>

text \<open>
  Case folding of the \<^verbatim>\<open>i\<close> flag. Every pattern of the program is made of ASCII
  characters, and a character outside ASCII never folds to an ASCII one, so folding the
  ASCII letters is all the flag does here.
\<close>

definition fold_case :: \<open>char \<Rightarrow> char\<close> where
  \<open>fold_case c = (case map_of (zip upper_letters lower_letters) c of
                    Some l \<Rightarrow> l | None \<Rightarrow> c)\<close>

definition chr_eq :: \<open>bool \<Rightarrow> char \<Rightarrow> char \<Rightarrow> bool\<close> where
  \<open>chr_eq ci p c = (if ci then fold_case p = fold_case c else p = c)\<close>

text \<open>
  \<^verbatim>\<open>String.prototype.trim\<close> removes white space and line terminators at both
  ends: among the code units below 256 these are TAB, LF, VT, FF, CR, SPACE and NBSP.
\<close>

definition is_space :: \<open>char \<Rightarrow> bool\<close> where
  \<open>is_space c = (c \<in> set [CHR 0x09, CHR 0x0A, CHR 0x0B, CHR 0x0C, CHR 0x0D, CHR 0x20, CHR 0xA0])\<close>

definition trim :: \<open>string \<Rightarrow> string\<close> where
  \<open>trim s = rev (dropWhile is_space (rev (dropWhile is_space s)))\<close>

text \<open>\<^verbatim>\<open>s.startsWith(w)\<close>, \<^verbatim>\<open>s.endsWith(w)\<close> and \<^verbatim>\<open>s.includes(w)\<close>.\<close>

fun startsWith :: \<open>string \<Rightarrow> string \<Rightarrow> bool\<close> where
  \<open>startsWith s [] = True\<close>
| \<open>startsWith [] (p # ps) = False\<close>
| \<open>startsWith (c # cs) (p # ps) = (c = p \<and> startsWith cs ps)\<close>

definition endsWith :: \<open>string \<Rightarrow> string \<Rightarrow> bool\<close> where
  \<open>endsWith s w = startsWith (rev s) (rev w)\<close>

fun includes_text :: \<open>string \<Rightarrow> string \<Rightarrow> bool\<close> where
  \<open>includes_text [] w = (w = [])\<close>
| \<open>includes_text (c # cs) w = (startsWith (c # cs) w \<or> includes_text cs w)\<close>

section \<open>Regular expressions\<close>

text \<open>
  Every regular expression of the program is a sequence of literal text, an alternative
  of literal words, a greedy or lazy repetition of a character class, the two ends of
  one capturing group, and the end anchor. A pattern is the list of these atoms, and
  \<open>rmatch\<close> is the backtracking matcher at one position: a greedy repetition tries
  the longest run first, a lazy one the shortest, and the first alternative that lets
  the rest of the pattern match wins. It returns the text left after the match and the
  texts left at each \<open>Mark\<close>, the opening and closing of the group.
\<close>

datatype cclass =
    NotChr char   \<comment> \<open>\<^verbatim>\<open>[^c]\<close>\<close>
  | AnyChr        \<comment> \<open>\<^verbatim>\<open>[\s\S]\<close>\<close>
  | Dot           \<comment> \<open>\<^verbatim>\<open>.\<close>: any character but a line terminator\<close>

datatype atom =
    Str string          \<comment> \<open>literal text\<close>
  | Alts \<open>string list\<close>  \<comment> \<open>\<^verbatim>\<open>(?:w1|w2)\<close>\<close>
  | Many cclass         \<comment> \<open>\<^verbatim>\<open>k*\<close>\<close>
  | Few cclass          \<comment> \<open>\<^verbatim>\<open>k*?\<close>\<close>
  | Mark                \<comment> \<open>\<^verbatim>\<open>(\<close> or \<^verbatim>\<open>)\<close> of the capturing group\<close>
  | Eol                 \<comment> \<open>\<^verbatim>\<open>$\<close>\<close>

fun in_class :: \<open>cclass \<Rightarrow> char \<Rightarrow> bool\<close> where
  \<open>in_class (NotChr p) c = (c \<noteq> p)\<close>
| \<open>in_class AnyChr c = True\<close>
| \<open>in_class Dot c = (c \<noteq> CHR 0x0A \<and> c \<noteq> CHR 0x0D)\<close>

fun str_prefix :: \<open>bool \<Rightarrow> string \<Rightarrow> string \<Rightarrow> bool\<close> where
  \<open>str_prefix ci [] s = True\<close>
| \<open>str_prefix ci (p # ps) [] = False\<close>
| \<open>str_prefix ci (p # ps) (c # cs) = (chr_eq ci p c \<and> str_prefix ci ps cs)\<close>

fun weight :: \<open>atom \<Rightarrow> nat\<close> where
  \<open>weight (Alts ws) = Suc (length ws)\<close>
| \<open>weight a = 1\<close>

function (sequential) rmatch :: \<open>bool \<Rightarrow> atom list \<Rightarrow> string \<Rightarrow> (string \<times> string list) option\<close> where
  \<open>rmatch ci [] s = Some (s, [])\<close>
| \<open>rmatch ci (Str w # as) s =
     (if str_prefix ci w s then rmatch ci as (drop (length w) s) else None)\<close>
| \<open>rmatch ci (Alts [] # as) s = None\<close>
| \<open>rmatch ci (Alts (w # ws) # as) s =
     (case (if str_prefix ci w s then rmatch ci as (drop (length w) s) else None) of
        Some r \<Rightarrow> Some r
      | None \<Rightarrow> rmatch ci (Alts ws # as) s)\<close>
| \<open>rmatch ci (Many k # as) [] = rmatch ci as []\<close>
| \<open>rmatch ci (Many k # as) (c # cs) =
     (if in_class k c
      then (case rmatch ci (Many k # as) cs of
              Some r \<Rightarrow> Some r
            | None \<Rightarrow> rmatch ci as (c # cs))
      else rmatch ci as (c # cs))\<close>
| \<open>rmatch ci (Few k # as) [] = rmatch ci as []\<close>
| \<open>rmatch ci (Few k # as) (c # cs) =
     (case rmatch ci as (c # cs) of
        Some r \<Rightarrow> Some r
      | None \<Rightarrow> if in_class k c then rmatch ci (Few k # as) cs else None)\<close>
| \<open>rmatch ci (Mark # as) s =
     (case rmatch ci as s of None \<Rightarrow> None | Some (r, ms) \<Rightarrow> Some (r, s # ms))\<close>
| \<open>rmatch ci (Eol # as) s = (if s = [] then rmatch ci as s else None)\<close>
  by pat_completeness auto
termination
  by (relation \<open>measures [\<lambda>(ci, as, s). sum_list (map weight as), \<lambda>(ci, as, s). length s]\<close>) auto

text \<open>The matched text and the text of the capturing group, from a result of \<open>rmatch\<close> at \<open>s\<close>.\<close>

definition matched :: \<open>string \<Rightarrow> string \<Rightarrow> string\<close> where
  \<open>matched s r = take (length s - length r) s\<close>

fun group1 :: \<open>string list \<Rightarrow> string\<close> where
  \<open>group1 (a # b # ms) = matched a b\<close>
| \<open>group1 ms = []\<close>

text \<open>
  \<^verbatim>\<open>s.match(re)\<close> for a pattern without the \<^verbatim>\<open>g\<close> flag: the leftmost match, as the
  matched text and the text of group 1, or \<open>None\<close> for \<^verbatim>\<open>null\<close>.
\<close>

fun match1 :: \<open>bool \<Rightarrow> atom list \<Rightarrow> string \<Rightarrow> (string \<times> string) option\<close> where
  \<open>match1 ci as [] =
     (case rmatch ci as [] of None \<Rightarrow> None | Some (r, ms) \<Rightarrow> Some ([], group1 ms))\<close>
| \<open>match1 ci as (c # cs) =
     (case rmatch ci as (c # cs) of
        None \<Rightarrow> match1 ci as cs
      | Some (r, ms) \<Rightarrow> Some (matched (c # cs) r, group1 ms))\<close>

text \<open>
  \<^verbatim>\<open>s.match(re)\<close> for a pattern with the \<^verbatim>\<open>g\<close> flag: the matched texts from left
  to right, the search resuming where the last match ended, one character further after
  an empty match. The empty list stands for \<^verbatim>\<open>null\<close>.
\<close>

fun match_g :: \<open>bool \<Rightarrow> atom list \<Rightarrow> string \<Rightarrow> string list\<close> where
  \<open>match_g ci as [] = (case rmatch ci as [] of None \<Rightarrow> [] | Some (r, ms) \<Rightarrow> [[]])\<close>
| \<open>match_g ci as (c # cs) =
     (case rmatch ci as (c # cs) of
        None \<Rightarrow> match_g ci as cs
      | Some (r, ms) \<Rightarrow>
          matched (c # cs) r #
            (if length r < length (c # cs) then match_g ci as r else match_g ci as cs))\<close>

text \<open>
  \<^verbatim>\<open>s.replace(re, rep)\<close> for a pattern with the \<^verbatim>\<open>g\<close> flag and a replacement text
  without \<^verbatim>\<open>$\<close>.
\<close>

fun replace_g :: \<open>bool \<Rightarrow> atom list \<Rightarrow> string \<Rightarrow> string \<Rightarrow> string\<close> where
  \<open>replace_g ci as rep [] = (case rmatch ci as [] of None \<Rightarrow> [] | Some (r, ms) \<Rightarrow> rep)\<close>
| \<open>replace_g ci as rep (c # cs) =
     (case rmatch ci as (c # cs) of
        None \<Rightarrow> c # replace_g ci as rep cs
      | Some (r, ms) \<Rightarrow>
          rep @ (if length r < length (c # cs) then replace_g ci as rep r
                 else c # replace_g ci as rep cs))\<close>

section \<open>The content sanitizer of the EPUB reader\<close>

text \<open>The patterns of \<^verbatim>\<open>cleanHtmlContent\<close>, in the order of the source.\<close>

definition script_re :: \<open>atom list\<close> where
  \<open>script_re = [Str ''<script'', Many (NotChr (CHR ''>'')), Str ''>'', Few AnyChr, Str ''</script>'']\<close>

definition style_re :: \<open>atom list\<close> where
  \<open>style_re = [Str ''<style'', Many (NotChr (CHR ''>'')), Str ''>'', Few AnyChr, Str ''</style>'']\<close>

definition meta_re :: \<open>atom list\<close> where
  \<open>meta_re = [Str ''<meta'', Many (NotChr (CHR ''>'')), Str ''>'']\<close>

definition link_re :: \<open>atom list\<close> where
  \<open>link_re = [Str ''<link'', Many (NotChr (CHR ''>'')), Str ''>'']\<close>

definition decode_entities :: \<open>string \<Rightarrow> string\<close> where
  \<open>decode_entities s =
     replace_g False [Str ''&#39;''] [CHR 0x27]
       (replace_g False [Str ''&quot;''] ''"''
         (replace_g False [Str ''&gt;''] ''>''
           (replace_g False [Str ''&lt;''] ''<''
             (replace_g False [Str ''&amp;''] ''&''
               (replace_g False [Str ''&nbsp;''] '' '' s)))))\<close>

definition cleanHtmlContent :: \<open>string \<Rightarrow> string\<close> where
  \<open>cleanHtmlContent html =
     trim (decode_entities
       (replace_g True link_re ''''
         (replace_g True meta_re ''''
           (replace_g True style_re ''''
             (replace_g True script_re '''' html)))))\<close>

definition body_re :: \<open>atom list\<close> where
  \<open>body_re = [Str ''<body'', Many (NotChr (CHR ''>'')), Str ''>'', Mark, Few AnyChr, Mark, Str ''</body>'']\<close>

definition extractContentFromHtml :: \<open>string \<Rightarrow> string\<close> where
  \<open>extractContentFromHtml html =
     (let content = cleanHtmlContent html in
      case match1 True body_re content of
        Some (m, g) \<Rightarrow> g
      | None \<Rightarrow> content)\<close>

text \<open>
  \<^verbatim>\<open>cleanTextContent\<close>, the title-only sanitizer. \<^verbatim>\<open>split\<close> cuts a text at
  every separator, \<^verbatim>\<open>join\<close> puts the separator between the pieces, and
  \<^verbatim>\<open>substring(0, n)\<close> keeps the first \<open>n\<close> code units.
\<close>

fun split :: \<open>char \<Rightarrow> string \<Rightarrow> string list\<close> where
  \<open>split sep [] = [[]]\<close>
| \<open>split sep (c # cs) =
     (if c = sep then [] # split sep cs
      else (case split sep cs of [] \<Rightarrow> [[c]] | l # ls \<Rightarrow> (c # l) # ls))\<close>

fun join :: \<open>string \<Rightarrow> string list \<Rightarrow> string\<close> where
  \<open>join sep [] = []\<close>
| \<open>join sep [l] = l\<close>
| \<open>join sep (l # m # ls) = l @ sep @ join sep (m # ls)\<close>

definition tag_re :: \<open>atom list\<close> where
  \<open>tag_re = [Str ''<'', Many (NotChr (CHR ''>'')), Str ''>'']\<close>

definition cleanTextContent :: \<open>string \<Rightarrow> string\<close> where
  \<open>cleanTextContent text =
     take 20000
       (join [CHR 0x0A, CHR 0x0A]
         (filter (\<lambda>line. length line > 0)
           (map trim
             (split (CHR 0x0A)
               (replace_g False [Str [CHR 0x0D]] [CHR 0x0A]
                 (replace_g False [Str [CHR 0x0D, CHR 0x0A]] [CHR 0x0A]
                   (replace_g False tag_re '''' text)))))))\<close>

text \<open>\<^verbatim>\<open>extractTitleFromHtml\<close>: the four patterns, tried in this order.\<close>

definition element_re :: \<open>string \<Rightarrow> atom list\<close> where
  \<open>element_re name =
     [Str (''<'' @ name), Many (NotChr (CHR ''>'')), Str ''>'', Mark, Few Dot, Mark,
      Str (''</'' @ name @ ''>'')]\<close>

definition titlePatterns :: \<open>atom list list\<close> where
  \<open>titlePatterns = [element_re ''title'', element_re ''h1'', element_re ''h2'', element_re ''h3'']\<close>

fun first_title :: \<open>atom list list \<Rightarrow> string \<Rightarrow> string option\<close> where
  \<open>first_title [] html = None\<close>
| \<open>first_title (pattern # ps) html =
     (case match1 True pattern html of
        None \<Rightarrow> first_title ps html
      | Some (m, g) \<Rightarrow>
          if length (trim g) > 0 then Some (cleanTextContent g) else first_title ps html)\<close>

definition extractTitleFromHtml :: \<open>string \<Rightarrow> string option\<close> where
  \<open>extractTitleFromHtml html = first_title titlePatterns html\<close>

section \<open>The archive and the chapters\<close>

text \<open>
  The loaded archive is the list of its entries, name and text, in the order in which
  \<^verbatim>\<open>Object.keys(zipFile.files)\<close> enumerates them. \<open>zip_file\<close> is
  \<^verbatim>\<open>await zipFile.file(name)?.async('string')\<close>, with \<open>None\<close> for
  \<^verbatim>\<open>undefined\<close>.
\<close>

type_synonym archive = \<open>(string \<times> string) list\<close>

definition zip_file :: \<open>archive \<Rightarrow> string \<Rightarrow> string option\<close> where
  \<open>zip_file zf name = map_of zf name\<close>

definition file_names :: \<open>archive \<Rightarrow> string list\<close> where
  \<open>file_names zf = map fst zf\<close>

record Chapter =
  chapter_id :: string
  title :: string
  content :: string

text \<open>The decimal numeral of a number, as a template literal prints it.\<close>

fun show_nat :: \<open>nat \<Rightarrow> string\<close> where
  \<open>show_nat n = (if n < 10 then [''0123456789'' ! n]
                 else show_nat (n div 10) @ [''0123456789'' ! (n mod 10)])\<close>

declare show_nat.simps [simp del]

text \<open>
  \<^verbatim>\<open>createChapterFromHtml\<close>. A missing entry and an empty text both fail the test
  \<^verbatim>\<open>!htmlContent\<close>; a missing and an empty title both give way to the synthesized
  one.
\<close>

definition createChapterFromHtml :: \<open>archive \<Rightarrow> string \<Rightarrow> nat \<Rightarrow> Chapter option\<close> where
  \<open>createChapterFromHtml zf htmlPath chapterIndex =
     (case zip_file zf htmlPath of
        None \<Rightarrow> None
      | Some htmlContent \<Rightarrow>
          if htmlContent = [] then None
          else
            let title = (case extractTitleFromHtml htmlContent of
                           None \<Rightarrow> ''Chapter '' @ show_nat chapterIndex
                         | Some t \<Rightarrow> if t = [] then ''Chapter '' @ show_nat chapterIndex else t);
                content = extractContentFromHtml htmlContent
            in if length (trim content) > 0
               then Some \<lparr>chapter_id = ''chapter-'' @ show_nat chapterIndex,
                          title = title, content = content\<rparr>
               else None)\<close>

text \<open>
  \<^verbatim>\<open>extractHtmlFilesFromOpf\<close>. Its second loop, over the stylesheets, only adds
  style elements to the document and is left out.
\<close>

definition lastIndexOf :: \<open>string \<Rightarrow> char \<Rightarrow> int\<close> where
  \<open>lastIndexOf s c = (case filter (\<lambda>i. s ! i = c) (rev [0..<length s]) of
                        [] \<Rightarrow> - 1 | i # _ \<Rightarrow> int i)\<close>

definition substring0 :: \<open>string \<Rightarrow> int \<Rightarrow> string\<close> where
  \<open>substring0 s n = take (nat n) s\<close>

text \<open>
  The two patterns of the manifest scan share the attribute
  \<^verbatim>\<open>href="([^"]*\.(?:html|xhtml))"\<close>; \<open>rest\<close> is what follows it in the pattern.
\<close>

definition href_value_re :: \<open>atom list \<Rightarrow> atom list\<close> where
  \<open>href_value_re rest =
     Str ''href="'' # Mark # Many (NotChr (CHR ''"'')) # Str ''.'' # Alts [''html'', ''xhtml'']
       # Mark # Str ''"'' # rest\<close>

definition item_re :: \<open>atom list\<close> where
  \<open>item_re = Str ''<item'' # Many (NotChr (CHR ''>''))
              # href_value_re [Many (NotChr (CHR ''>'')), Str ''>'']\<close>

definition href_re :: \<open>atom list\<close> where
  \<open>href_re = href_value_re []\<close>

definition basePath :: \<open>archive \<Rightarrow> string\<close> where
  \<open>basePath zf =
     (case find (\<lambda>name. endsWith name ''.opf'') (file_names zf) of
        Some opfPath \<Rightarrow> substring0 opfPath (lastIndexOf opfPath (CHR ''/'') + 1)
      | None \<Rightarrow> [])\<close>

fun push_hrefs :: \<open>string \<Rightarrow> string list \<Rightarrow> string list\<close> where
  \<open>push_hrefs base [] = []\<close>
| \<open>push_hrefs base (m # ms) =
     (case match1 True href_re m of
        Some (h, g) \<Rightarrow> (base @ g) # push_hrefs base ms
      | None \<Rightarrow> push_hrefs base ms)\<close>

definition extractHtmlFilesFromOpf :: \<open>archive \<Rightarrow> string \<Rightarrow> string list\<close> where
  \<open>extractHtmlFilesFromOpf zf opfContent =
     push_hrefs (basePath zf) (match_g True item_re opfContent)\<close>

text \<open>\<^verbatim>\<open>extractHtmlFilesDirectly\<close>, again without the stylesheets.\<close>

definition suffix_re :: \<open>atom list\<close> where
  \<open>suffix_re = [Str ''.'', Mark, Alts [''html'', ''xhtml''], Mark, Eol]\<close>

definition extractHtmlFilesDirectly :: \<open>archive \<Rightarrow> string list\<close> where
  \<open>extractHtmlFilesDirectly zf =
     filter (\<lambda>fileName. match1 True suffix_re fileName \<noteq> None
                        \<and> \<not> includes_text fileName ''META-INF'')
       (file_names zf)\<close>

text \<open>
  The loop of \<^verbatim>\<open>extractEpubContent\<close> that turns the paths into chapters: \<open>i\<close> is
  the loop index, and a path that gives no chapter is passed over.
\<close>

fun chapters_from :: \<open>archive \<Rightarrow> string list \<Rightarrow> nat \<Rightarrow> Chapter list\<close> where
  \<open>chapters_from zf [] i = []\<close>
| \<open>chapters_from zf (htmlFile # rest) i =
     (case createChapterFromHtml zf htmlFile (i + 1) of
        Some ch \<Rightarrow> ch # chapters_from zf rest (i + 1)
      | None \<Rightarrow> chapters_from zf rest (i + 1))\<close>

definition rootfile_re :: \<open>atom list\<close> where
  \<open>rootfile_re = [Str ''<rootfile'', Many (NotChr (CHR ''>'')), Str ''full-path="'', Mark,
                  Many (NotChr (CHR ''"'')), Mark, Str ''"'', Many (NotChr (CHR ''>'')), Str ''>'']\<close>

text \<open>
  \<^verbatim>\<open>extractEpubContent\<close>. The argument is the outcome of \<^verbatim>\<open>zip.loadAsync\<close>:
  \<open>None\<close> when it throws, which the function catches, returning no chapter.
\<close>

definition opf_chapters :: \<open>archive \<Rightarrow> Chapter list\<close> where
  \<open>opf_chapters zf =
     (case zip_file zf ''META-INF/container.xml'' of
        None \<Rightarrow> []
      | Some containerXml \<Rightarrow>
          if containerXml = [] then []
          else (case match1 True rootfile_re containerXml of
                  None \<Rightarrow> []
                | Some (m, opfPath) \<Rightarrow>
                    (case zip_file zf opfPath of
                       None \<Rightarrow> []
                     | Some opfContent \<Rightarrow>
                         if opfContent = [] then []
                         else chapters_from zf (extractHtmlFilesFromOpf zf opfContent) 0)))\<close>

definition extractEpubContent :: \<open>archive option \<Rightarrow> Chapter list\<close> where
  \<open>extractEpubContent loaded =
     (case loaded of
        None \<Rightarrow> []
      | Some zf \<Rightarrow>
          let chapters = opf_chapters zf in
          if length chapters = 0 then chapters_from zf (extractHtmlFilesDirectly zf) 0
          else chapters)\<close>

text \<open>
  \<^verbatim>\<open>processEpubContent\<close>, the caller: the chapters it stores and the error it
  reports. \<^verbatim>\<open>extractEpubContent\<close> catches every exception, so none reaches the
  caller's handler.
\<close>

record reader_state =
  chapters :: \<open>Chapter list\<close>
  error :: \<open>string option\<close>

definition processEpubContent :: \<open>archive option \<Rightarrow> reader_state\<close> where
  \<open>processEpubContent loaded = \<lparr>chapters = extractEpubContent loaded, error = None\<rparr>\<close>

text \<open>
  The paths the manifest gives, and the paths the chapters are made from: the manifest's
  when they give a chapter, the direct scan's otherwise.
\<close>

definition opf_files :: \<open>archive \<Rightarrow> string list\<close> where
  \<open>opf_files zf =
     (case zip_file zf ''META-INF/container.xml'' of
        None \<Rightarrow> []
      | Some containerXml \<Rightarrow>
          if containerXml = [] then []
          else (case match1 True rootfile_re containerXml of
                  None \<Rightarrow> []
                | Some (m, opfPath) \<Rightarrow>
                    (case zip_file zf opfPath of
                       None \<Rightarrow> []
                     | Some opfContent \<Rightarrow>
                         if opfContent = [] then []
                         else extractHtmlFilesFromOpf zf opfContent)))\<close>

definition html_files :: \<open>archive \<Rightarrow> string list\<close> where
  \<open>html_files zf =
     (if chapters_from zf (opf_files zf) 0 = [] then extractHtmlFilesDirectly zf
      else opf_files zf)\<close>

text \<open>The content a path contributes: that of the chapter made from it, if one is made.\<close>

definition readable_content :: \<open>archive \<Rightarrow> string \<Rightarrow> string option\<close> where
  \<open>readable_content zf path =
     (case zip_file zf path of
        None \<Rightarrow> None
      | Some htmlContent \<Rightarrow>
          if htmlContent \<noteq> [] \<and> trim (extractContentFromHtml htmlContent) \<noteq> []
          then Some (extractContentFromHtml htmlContent) else None)\<close>

text \<open>
  A manifest text: content items declared one after the other, each after some text
  without an opening angle bracket, and such a text at the end. A declared reference has
  no quotation mark and no closing angle bracket, and ends in one of the two suffixes.
\<close>

definition item_decl :: \<open>string \<Rightarrow> string\<close> where
  \<open>item_decl href = ''<item href="'' @ href @ ''"/>''\<close>

fun manifest :: \<open>(string \<times> string) list \<Rightarrow> string \<Rightarrow> string\<close> where
  \<open>manifest [] end_text = end_text\<close>
| \<open>manifest ((before, href) # items) end_text = before @ item_decl href @ manifest items end_text\<close>

definition content_href :: \<open>string \<Rightarrow> bool\<close> where
  \<open>content_href href =
     (CHR ''"'' \<notin> set href \<and> CHR ''>'' \<notin> set href
      \<and> (endsWith href ''.html'' \<or> endsWith href ''.xhtml''))\<close>

text \<open>
  A name with a content-file suffix, in either case of the letters; and a name under the
  reserved metadata directory.
\<close>

definition has_content_suffix :: \<open>string \<Rightarrow> bool\<close> where
  \<open>has_content_suffix name =
     (endsWith (map fold_case name) ''.html'' \<or> endsWith (map fold_case name) ''.xhtml'')\<close>

definition under_metadata_directory :: \<open>string \<Rightarrow> bool\<close> where
  \<open>under_metadata_directory name = startsWith name ''META-INF/''\<close>

text \<open>
  The title as the specification words it: the first of the four matches, in the order
  of the patterns, that is not empty after the title sanitizer; the synthesized title if
  there is none.
\<close>

definition title_matches :: \<open>string \<Rightarrow> string list\<close> where
  \<open>title_matches html =
     List.map_filter (\<lambda>pattern. map_option snd (match1 True pattern html)) titlePatterns\<close>

definition spec_title :: \<open>string \<Rightarrow> nat \<Rightarrow> string\<close> where
  \<open>spec_title html ordinal =
     (case filter (\<lambda>t. t \<noteq> []) (map cleanTextContent (title_matches html)) of
        [] \<Rightarrow> ''Chapter '' @ show_nat ordinal
      | t # _ \<Rightarrow> t)\<close>

section \<open>The page-text reconstructor of the PDF reader\<close>

text \<open>
  Coordinates are JavaScript numbers. They are modelled as integers: on integer
  coordinates below \<open>2^53\<close> the differences and comparisons of the source are exact, so
  the model computes what the source computes there.
\<close>

record TextItem =
  str :: string
  transform :: \<open>int list\<close>
  width :: int
  height :: int

record PDFPageProxy =
  view :: \<open>int list\<close>

definition compare_items :: \<open>PDFPageProxy \<Rightarrow> TextItem \<Rightarrow> TextItem \<Rightarrow> int\<close> where
  \<open>compare_items page a b =
     (let yA = view page ! 3 - transform a ! 5;
          yB = view page ! 3 - transform b ! 5
      in if \<bar>yA - yB\<bar> < 10 then transform a ! 4 - transform b ! 4
         else yB - yA)\<close>

text \<open>
  \<^verbatim>\<open>Array.prototype.sort\<close> with a comparator, as the stable insertion sort: an
  element goes before the first element that the comparator puts after it. Where the
  comparator orders the elements of the array consistently, every conforming sort returns
  this list.
\<close>

fun insert_by :: \<open>('a \<Rightarrow> 'a \<Rightarrow> int) \<Rightarrow> 'a \<Rightarrow> 'a list \<Rightarrow> 'a list\<close> where
  \<open>insert_by cmp x [] = [x]\<close>
| \<open>insert_by cmp x (y # ys) = (if cmp x y < 0 then x # y # ys else y # insert_by cmp x ys)\<close>

definition sort_by :: \<open>('a \<Rightarrow> 'a \<Rightarrow> int) \<Rightarrow> 'a list \<Rightarrow> 'a list\<close> where
  \<open>sort_by cmp xs = foldl (\<lambda>sorted x. insert_by cmp x sorted) [] xs\<close>

record line_state =
  page_html :: string
  currentY :: int
  currentLine :: string

definition close_line :: \<open>line_state \<Rightarrow> string\<close> where
  \<open>close_line st =
     (if trim (currentLine st) \<noteq> []
      then page_html st @ ''<div class="pdf-line">'' @ currentLine st @ ''</div>''
      else page_html st)\<close>

definition add_item :: \<open>PDFPageProxy \<Rightarrow> line_state \<Rightarrow> TextItem \<Rightarrow> line_state\<close> where
  \<open>add_item page st item =
     (let y = view page ! 3 - transform item ! 5;
          st1 = (if \<bar>y - currentY st\<bar> > 10
                 then \<lparr>page_html = close_line st, currentY = y, currentLine = []\<rparr>
                 else st);
          text = replace_g False [Str ''>''] ''&gt;'' (replace_g False [Str ''<''] ''&lt;'' (str item))
      in st1\<lparr>currentLine := currentLine st1 @ ''<span class="pdf-text">'' @ text @ ''</span>''\<rparr>)\<close>

definition convertTextContentToHtml :: \<open>TextItem list \<Rightarrow> PDFPageProxy \<Rightarrow> string\<close> where
  \<open>convertTextContentToHtml items page =
     (let sortedItems = sort_by (compare_items page) items;
          st = foldl (add_item page)
                 \<lparr>page_html = ''<div class="pdf-page">'', currentY = - 1, currentLine = []\<rparr>
                 sortedItems
      in close_line st @ ''</div>'')\<close>

section \<open>The reading progress\<close>

text \<open>
  Page numbers are JavaScript numbers, and the quotient of two of them is rounded to a
  double before it is multiplied by 100 and rounded again. \<open>fl\<close> is this rounding, to
  the nearest number with a significand of 53 bits, ties to the even one, for a positive
  rational in the range of the normal doubles; \<^verbatim>\<open>Math.round\<close> takes the nearest
  integer, ties upwards.
\<close>

function bitlen :: \<open>int \<Rightarrow> nat\<close> where
  \<open>bitlen n = (if n \<le> 0 then 0 else Suc (bitlen (n div 2)))\<close>
  by pat_completeness auto
termination
  by (relation \<open>measure nat\<close>) auto

declare bitlen.simps [simp del]

definition pow2 :: \<open>int \<Rightarrow> rat\<close> where
  \<open>pow2 e = (if 0 \<le> e then 2 ^ nat e else 1 / 2 ^ nat (- e))\<close>

definition exponent :: \<open>rat \<Rightarrow> int\<close> where
  \<open>exponent q =
     (let k = int (bitlen (fst (quotient_of q))) - int (bitlen (snd (quotient_of q)))
      in if pow2 k \<le> q then k else k - 1)\<close>

definition round_even :: \<open>rat \<Rightarrow> int\<close> where
  \<open>round_even x =
     (let f = \<lfloor>x\<rfloor> in
      if x - of_int f < 1 / 2 then f
      else if 1 / 2 < x - of_int f then f + 1
      else if even f then f else f + 1)\<close>

definition fl :: \<open>rat \<Rightarrow> rat\<close> where
  \<open>fl q = (if q = 0 then 0
           else of_int (round_even (q / pow2 (exponent q - 52))) * pow2 (exponent q - 52))\<close>

definition Math_round :: \<open>rat \<Rightarrow> int\<close> where
  \<open>Math_round x = \<lfloor>x + 1 / 2\<rfloor>\<close>

definition percentage_of :: \<open>nat \<Rightarrow> nat \<Rightarrow> int\<close> where
  \<open>percentage_of currentPage totalPages =
     Math_round (fl (fl (of_nat currentPage / of_nat totalPages) * 100))\<close>

record progress =
  currentPage :: nat
  totalPages :: nat
  percentage :: int

text \<open>
  The two effects of \<^verbatim>\<open>BookReader\<close> that save the progress: the one run when the
  page changes, and the one run when the reader is closed. The result is the progress
  saved, \<open>None\<close> when nothing is.
\<close>

definition auto_save :: \<open>bool \<Rightarrow> bool \<Rightarrow> nat \<Rightarrow> nat \<Rightarrow> progress option\<close> where
  \<open>auto_save onProgressUpdate autoSaveEnabled cur tot =
     (if onProgressUpdate \<and> tot > 0 \<and> autoSaveEnabled
      then Some \<lparr>currentPage = cur, totalPages = tot, percentage = percentage_of cur tot\<rparr>
      else None)\<close>

definition save_on_close :: \<open>nat \<Rightarrow> nat \<Rightarrow> progress option\<close> where
  \<open>save_on_close cur tot =
     (if tot > 0
      then Some \<lparr>currentPage = cur, totalPages = tot, percentage = percentage_of cur tot\<rparr>
      else None)\<close>

section \<open>Example inputs\<close>

text \<open>
  An archive whose manifest declares \<^verbatim>\<open>b.xhtml\<close> before \<^verbatim>\<open>a.xhtml\<close>, the
  archive holding them the other way round.
\<close>

definition declared_b_a :: archive where
  \<open>declared_b_a =
     [(''META-INF/container.xml'', ''<rootfile full-path="OEBPS/content.opf"/>''),
      (''OEBPS/a.xhtml'', ''<p>A</p>''),
      (''OEBPS/b.xhtml'', ''<p>B</p>''),
      (''OEBPS/content.opf'', ''<item href="b.xhtml"/><item href="a.xhtml"/>'')]\<close>

text \<open>
  The same book with the content files in a directory beside the manifest's, declared by
  references that climb out of the manifest's directory.
\<close>

definition declared_b_a_beside :: archive where
  \<open>declared_b_a_beside =
     [(''META-INF/container.xml'', ''<rootfile full-path="OEBPS/content.opf"/>''),
      (''OEBPS/content.opf'', ''<item href="../text/b.xhtml"/><item href="../text/a.xhtml"/>''),
      (''text/a.xhtml'', ''<p>A</p>''),
      (''text/b.xhtml'', ''<p>B</p>'')]\<close>

text \<open>An archive with a second package file, enumerated before the manifest.\<close>

definition two_packages :: archive where
  \<open>two_packages =
     [(''META-INF/container.xml'', ''<rootfile full-path="OEBPS/content.opf"/>''),
      (''backup/old.opf'', ''<package/>''),
      (''OEBPS/content.opf'', ''<item href="ch1.xhtml"/>''),
      (''OEBPS/ch1.xhtml'', ''<p>One</p>'')]\<close>

text \<open>Three content files, the second one blank.\<close>

definition blank_second :: archive where
  \<open>blank_second = [(''a.html'', ''<p>A</p>''), (''b.html'', '' ''), (''c.html'', ''<p>C</p>'')]\<close>

text \<open>
  Archives without a container descriptor, each with three content files and a
  stylesheet: all three readable; one of them blank; one of them with the letters
  \<^verbatim>\<open>META-INF\<close> in its name.
\<close>

definition three_and_style :: archive where
  \<open>three_and_style =
     [(''a.html'', ''<p>A</p>''), (''style.css'', ''p {}''), (''b.xhtml'', ''<p>B</p>''),
      (''c.HTML'', ''<p>C</p>'')]\<close>

definition three_one_blank :: archive where
  \<open>three_one_blank =
     [(''a.html'', ''<p>A</p>''), (''style.css'', ''p {}''), (''b.xhtml'', '' ''),
      (''c.html'', ''<p>C</p>'')]\<close>

definition three_one_named_meta :: archive where
  \<open>three_one_named_meta =
     [(''a.html'', ''<p>A</p>''), (''style.css'', ''p {}''), (''b.xhtml'', ''<p>B</p>''),
      (''notes-META-INF.html'', ''<p>C</p>'')]\<close>

text \<open>A content file whose title element holds an empty element, before a heading.\<close>

definition empty_title_html :: string where
  \<open>empty_title_html = ''<title><b></b></title><h1>Real</h1>''\<close>

text \<open>
  Text runs at the place \<open>x\<close>, \<open>y\<close>, and the six orders in which three runs can
  arrive.
\<close>

definition run :: \<open>int \<Rightarrow> int \<Rightarrow> string \<Rightarrow> TextItem\<close> where
  \<open>run x y s = \<lparr>str = s, transform = [1, 0, 0, 1, x, y], width = 0, height = 0\<rparr>\<close>

definition arrangements :: \<open>'a \<Rightarrow> 'a \<Rightarrow> 'a \<Rightarrow> 'a list list\<close> where
  \<open>arrangements a b c = [ [a, b, c], [a, c, b], [b, a, c], [b, c, a], [c, a, b], [c, b, a] ]\<close>

definition two_lines :: string where
  \<open>two_lines = ''<div class="pdf-page"><div class="pdf-line"><span class="pdf-text">A</span><span class="pdf-text">B</span></div><div class="pdf-line"><span class="pdf-text">C</span></div></div>''\<close>

definition three_lines :: string where
  \<open>three_lines = ''<div class="pdf-page"><div class="pdf-line"><span class="pdf-text">A</span></div><div class="pdf-line"><span class="pdf-text">B</span></div><div class="pdf-line"><span class="pdf-text">C</span></div></div>''\<close>

definition bottom_then_top :: string where
  \<open>bottom_then_top = ''<div class="pdf-page"><div class="pdf-line"><span class="pdf-text">Bottom</span></div><div class="pdf-line"><span class="pdf-text">Top</span></div></div>''\<close>

section \<open>Case folding and prefixes\<close>

text \<open>
  Folding an ASCII capital letter sets the bit that distinguishes it from the small
  letter; every other character is left alone. The equation is the one evaluation uses.
\<close>

lemma fold_case_bits [code]:
  \<open>fold_case (Char b0 b1 b2 b3 b4 b5 b6 b7) =
     (if \<not> b7 \<and> b6 \<and> \<not> b5 \<and> (b0 \<or> b1 \<or> b2 \<or> b3 \<or> b4) \<and> \<not> (b4 \<and> b3 \<and> (b2 \<or> (b1 \<and> b0)))
      then Char b0 b1 b2 b3 b4 True b6 b7
      else Char b0 b1 b2 b3 b4 b5 b6 b7)\<close>
  unfolding fold_case_def upper_letters_def lower_letters_def
  by (cases b0; cases b1; cases b2; cases b3; cases b4; cases b5; cases b6; cases b7; simp)

lemma fold_case_eq_iff [simp]:
  \<open>fold_case c = CHR ''<'' \<longleftrightarrow> c = CHR ''<''\<close>
  \<open>fold_case c = CHR ''>'' \<longleftrightarrow> c = CHR ''>''\<close>
  \<open>fold_case c = CHR ''"'' \<longleftrightarrow> c = CHR ''"''\<close>
  \<open>fold_case c = CHR ''='' \<longleftrightarrow> c = CHR ''=''\<close>
  \<open>fold_case c = CHR ''.'' \<longleftrightarrow> c = CHR ''.''\<close>
  by (cases c; auto simp: fold_case_bits)+

lemma fold_case_eq_iff' [simp]:
  \<open>CHR ''<'' = fold_case c \<longleftrightarrow> c = CHR ''<''\<close>
  \<open>CHR ''>'' = fold_case c \<longleftrightarrow> c = CHR ''>''\<close>
  \<open>CHR ''"'' = fold_case c \<longleftrightarrow> c = CHR ''"''\<close>
  \<open>CHR ''='' = fold_case c \<longleftrightarrow> c = CHR ''=''\<close>
  \<open>CHR ''.'' = fold_case c \<longleftrightarrow> c = CHR ''.''\<close>
  by (cases c; auto simp: fold_case_bits)+

lemmas ci_simps = chr_eq_def fold_case_bits

lemma str_prefix_iff:
  \<open>str_prefix True w s \<longleftrightarrow> length w \<le> length s \<and> map fold_case (take (length w) s) = map fold_case w\<close>
  by (induction \<open>True\<close> w s rule: str_prefix.induct) (auto simp: chr_eq_def)

lemma str_prefix_ConsE:
  assumes \<open>str_prefix ci (p # ps) s\<close>
  obtains c cs where \<open>s = c # cs\<close> \<open>chr_eq ci p c\<close> \<open>str_prefix ci ps cs\<close>
  using assms by (cases s) auto

lemma startsWith_prefix: \<open>startsWith s w \<longleftrightarrow> prefix w s\<close>
  by (induction s w rule: startsWith.induct) auto

lemma endsWith_suffix: \<open>endsWith s w \<longleftrightarrow> suffix w s\<close>
  by (simp add: endsWith_def startsWith_prefix suffix_to_prefix)

section \<open>Sanitizing\<close>




text \<open>
  C10. Entity decoding comes after the removal of the script blocks, so a script block
  written with entity-encoded angle brackets leaves the sanitizer as a literal script
  element.
\<close>

theorem entity_encoded_script_survives:
  \<open>cleanHtmlContent ''&lt;script&gt;alert(1)&lt;/script&gt;'' = ''<script>alert(1)</script>''
   \<and> includes_text (cleanHtmlContent ''&lt;script&gt;alert(1)&lt;/script&gt;'') ''<script>''
   \<and> extractContentFromHtml ''&lt;script&gt;alert(1)&lt;/script&gt;'' = ''<script>alert(1)</script>''\<close>
proof -
  have a: \<open>cleanHtmlContent ''&lt;script&gt;alert(1)&lt;/script&gt;'' = ''<script>alert(1)</script>''\<close>
    by code_simp
  have b: \<open>includes_text ''<script>alert(1)</script>'' ''<script>''\<close>
    by code_simp
  have c: \<open>extractContentFromHtml ''&lt;script&gt;alert(1)&lt;/script&gt;'' = ''<script>alert(1)</script>''\<close>
    by code_simp
  show ?thesis unfolding a using b c by blast
qed


section \<open>Chapter titles\<close>

lemma first_title_eq:
  \<open>first_title ps html =
     (case filter (\<lambda>g. trim g \<noteq> [])
             (List.map_filter (\<lambda>pattern. map_option snd (match1 True pattern html)) ps) of
        [] \<Rightarrow> None
      | g # _ \<Rightarrow> Some (cleanTextContent g))\<close>
  by (induction ps) (auto simp: List.map_filter_simps split: option.splits)

lemma cleanTextContent_length: \<open>length (cleanTextContent g) \<le> 20000\<close>
  by (simp add: cleanTextContent_def)

text \<open>
  C8, as amended. The title of a chapter is the title-sanitized text of the first match
  of the first of the four patterns, in the order title, h1, h2, h3, whose match has a
  captured text that is not blank; if no pattern has such a match, or if that text is
  empty once sanitized, the title is the synthesized one. A sanitized title has at most
  20000 code units.
\<close>

theorem chapter_title:
  \<open>(createChapterFromHtml zf path ordinal = Some ch \<and> zip_file zf path = Some html \<longrightarrow>
      title ch =
        (case filter (\<lambda>g. trim g \<noteq> []) (title_matches html) of
           [] \<Rightarrow> ''Chapter '' @ show_nat ordinal
         | g # _ \<Rightarrow> if cleanTextContent g = [] then ''Chapter '' @ show_nat ordinal
                    else cleanTextContent g))
   \<and> length (cleanTextContent g) \<le> 20000\<close>
proof -
  have \<open>title ch =
        (case filter (\<lambda>g. trim g \<noteq> []) (title_matches html) of
           [] \<Rightarrow> ''Chapter '' @ show_nat ordinal
         | g # _ \<Rightarrow> if cleanTextContent g = [] then ''Chapter '' @ show_nat ordinal
                    else cleanTextContent g)\<close>
    if \<open>createChapterFromHtml zf path ordinal = Some ch\<close> \<open>zip_file zf path = Some html\<close>
    using that
    by (auto simp: createChapterFromHtml_def extractTitleFromHtml_def first_title_eq
        title_matches_def Let_def split: if_splits list.splits)
  then show ?thesis using cleanTextContent_length by blast
qed

theorem chapter_title_witness:
  \<open>createChapterFromHtml [(''ch.html'', ''<h1>One</h1><p>x</p>'')] ''ch.html'' 1
     = Some \<lparr>chapter_id = ''chapter-1'', title = ''One'', content = ''<h1>One</h1><p>x</p>''\<rparr>
   \<and> zip_file [(''ch.html'', ''<h1>One</h1><p>x</p>'')] ''ch.html'' = Some ''<h1>One</h1><p>x</p>''
   \<and> (case filter (\<lambda>g. trim g \<noteq> []) (title_matches ''<h1>One</h1><p>x</p>'') of
         [] \<Rightarrow> ''Chapter '' @ show_nat 1
       | g # _ \<Rightarrow> if cleanTextContent g = [] then ''Chapter '' @ show_nat 1
                  else cleanTextContent g) = ''One''\<close>
proof -
  let ?zf = \<open>[(''ch.html'', ''<h1>One</h1><p>x</p>'')]\<close>
  let ?ch = \<open>\<lparr>chapter_id = ''chapter-1'', title = ''One'', content = ''<h1>One</h1><p>x</p>''\<rparr>\<close>
  have a: \<open>createChapterFromHtml ?zf ''ch.html'' 1 = Some ?ch\<close> by code_simp
  have b: \<open>zip_file ?zf ''ch.html'' = Some ''<h1>One</h1><p>x</p>''\<close> by code_simp
  from chapter_title [of ?zf \<open>''ch.html''\<close> 1 ?ch \<open>''<h1>One</h1><p>x</p>''\<close>] a b
  have \<open>title ?ch =
          (case filter (\<lambda>g. trim g \<noteq> []) (title_matches ''<h1>One</h1><p>x</p>'') of
             [] \<Rightarrow> ''Chapter '' @ show_nat 1
           | g # _ \<Rightarrow> if cleanTextContent g = [] then ''Chapter '' @ show_nat 1
                      else cleanTextContent g)\<close>
    by blast
  then have \<open>(case filter (\<lambda>g. trim g \<noteq> []) (title_matches ''<h1>One</h1><p>x</p>'') of
             [] \<Rightarrow> ''Chapter '' @ show_nat 1
           | g # _ \<Rightarrow> if cleanTextContent g = [] then ''Chapter '' @ show_nat 1
                      else cleanTextContent g) = ''One''\<close>
    by (simp only: Chapter.simps)
  with a b show ?thesis by blast
qed

text \<open>
  The claim as stated fails on a title element that holds only an empty element: its
  captured text is not blank, so the search stops there, the sanitized text is empty, and
  the title is the synthesized one, not the heading that follows, which is the first
  match that is not empty after sanitization.
\<close>

theorem chapter_title_counterexample:
  \<open>map_option title (createChapterFromHtml [(''ch.html'', empty_title_html)] ''ch.html'' 1)
     = Some ''Chapter 1''
   \<and> spec_title empty_title_html 1 = ''Real''
   \<and> map_option title (createChapterFromHtml [(''ch.html'', empty_title_html)] ''ch.html'' 1)
     \<noteq> Some (spec_title empty_title_html 1)\<close>
proof -
  have a: \<open>map_option title (createChapterFromHtml [(''ch.html'', empty_title_html)] ''ch.html'' 1)
     = Some ''Chapter 1''\<close>
    by code_simp
  have b: \<open>spec_title empty_title_html 1 = ''Real''\<close>
    by code_simp
  show ?thesis unfolding a b by simp
qed


section \<open>Matching the patterns of the archive\<close>

subsection \<open>Greedy repetition\<close>

lemma many_stop:
  \<open>v = [] \<or> \<not> in_class k (hd v) \<Longrightarrow> rmatch ci (Many k # as) v = rmatch ci as v\<close>
  by (cases v) auto

lemma many_none:
  assumes \<open>\<forall>c \<in> set u. in_class k c\<close> \<open>v = [] \<or> \<not> in_class k (hd v)\<close>
    and \<open>\<forall>t. suffix t u \<longrightarrow> rmatch ci as (t @ v) = None\<close>
  shows \<open>rmatch ci (Many k # as) (u @ v) = None\<close>
  using assms
proof (induction u)
  case Nil
  then show ?case by (simp add: many_stop)
next
  case (Cons c u)
  from Cons.prems(3) have \<open>\<forall>t. suffix t u \<longrightarrow> rmatch ci as (t @ v) = None\<close>
    by (simp add: suffix_Cons)
  with Cons have \<open>rmatch ci (Many k # as) (u @ v) = None\<close> by simp
  moreover from Cons.prems(3) have \<open>rmatch ci as ((c # u) @ v) = None\<close> by blast
  ultimately show ?case using Cons.prems(1) by simp
qed

lemma many_some:
  assumes \<open>\<forall>c \<in> set (u1 @ u2). in_class k c\<close> \<open>v = [] \<or> \<not> in_class k (hd v)\<close>
    and \<open>rmatch ci as (u2 @ v) = Some r\<close>
    and \<open>\<forall>t. strict_suffix t u2 \<longrightarrow> rmatch ci as (t @ v) = None\<close>
  shows \<open>rmatch ci (Many k # as) (u1 @ u2 @ v) = Some r\<close>
  using assms(1)
proof (induction u1)
  case Nil
  show ?case
  proof (cases u2)
    case Nil
    then show ?thesis using assms by (simp add: many_stop)
  next
    case (Cons c u)
    have none: \<open>rmatch ci as (t @ v) = None\<close> if \<open>suffix t u\<close> for t
    proof -
      from that have \<open>suffix t (c # u)\<close> by (rule suffix_ConsI)
      moreover from that have \<open>length t \<le> length u\<close> by (rule suffix_length_le)
      then have \<open>t \<noteq> c # u\<close> by auto
      ultimately have \<open>strict_suffix t u2\<close> by (simp add: Cons strict_suffix_def)
      with assms(4) show ?thesis by simp
    qed
    have cls: \<open>\<forall>c \<in> set u. in_class k c\<close> using assms(1) by (simp add: Cons)
    have \<open>rmatch ci (Many k # as) (u @ v) = None\<close>
      by (rule many_none [OF cls assms(2)]) (simp add: none)
    then show ?thesis using assms(1,3) by (simp add: Cons)
  qed
next
  case (Cons c u1)
  then show ?case by simp
qed

subsection \<open>The suffix of a content file\<close>

lemma rmatch_suffix_re:
  \<open>rmatch True suffix_re t \<noteq> None \<longleftrightarrow> map fold_case t = ''.html'' \<or> map fold_case t = ''.xhtml''\<close>
proof (cases t)
  case Nil
  then show ?thesis by (simp add: suffix_re_def)
next
  case (Cons c r)
  have a: \<open>str_prefix True ''html'' r \<and> drop 4 r = [] \<longleftrightarrow> map fold_case r = ''html''\<close>
    by (auto simp: str_prefix_iff fold_case_bits)
  have b: \<open>str_prefix True ''xhtml'' r \<and> drop 5 r = [] \<longleftrightarrow> map fold_case r = ''xhtml''\<close>
    by (auto simp: str_prefix_iff fold_case_bits)
  show ?thesis
    using a b by (auto simp: Cons suffix_re_def ci_simps split: option.splits if_splits)
qed

lemma match1_None_iff:
  \<open>match1 ci as s \<noteq> None \<longleftrightarrow> (\<exists>t. suffix t s \<and> rmatch ci as t \<noteq> None)\<close>
  by (induction s) (auto simp: suffix_Cons split: option.splits)

lemma suffix_map_iff:
  \<open>(\<exists>t. suffix t s \<and> map f t = w) \<longleftrightarrow> suffix w (map f s)\<close>
proof
  assume \<open>\<exists>t. suffix t s \<and> map f t = w\<close>
  then show \<open>suffix w (map f s)\<close> by (auto simp: suffix_def)
next
  assume \<open>suffix w (map f s)\<close>
  then obtain z where \<open>map f s = z @ w\<close> by (auto simp: suffix_def)
  then obtain a b where \<open>s = a @ b\<close> \<open>map f b = w\<close> by (auto simp: map_eq_append_conv)
  then show \<open>\<exists>t. suffix t s \<and> map f t = w\<close> by (auto simp: suffix_def)
qed

lemma match1_suffix_re: \<open>match1 True suffix_re s \<noteq> None \<longleftrightarrow> has_content_suffix s\<close>
proof -
  have \<open>match1 True suffix_re s \<noteq> None \<longleftrightarrow>
          (\<exists>t. suffix t s \<and> map fold_case t = ''.html'') \<or> (\<exists>t. suffix t s \<and> map fold_case t = ''.xhtml'')\<close>
    by (simp only: match1_None_iff rmatch_suffix_re conj_disj_distribL ex_disj_distrib)
  then show ?thesis
    by (simp only: suffix_map_iff has_content_suffix_def endsWith_suffix)
qed

lemma extractHtmlFilesDirectly_eq:
  \<open>extractHtmlFilesDirectly zf =
     filter (\<lambda>name. has_content_suffix name \<and> \<not> includes_text name ''META-INF'') (file_names zf)\<close>
  by (simp only: extractHtmlFilesDirectly_def match1_suffix_re)

subsection \<open>The declaration of a content item\<close>

lemma content_href_chars:
  assumes \<open>content_href h\<close>
  shows \<open>CHR ''"'' \<notin> set h\<close> \<open>CHR ''>'' \<notin> set h\<close> \<open>h \<noteq> []\<close> \<open>last h = CHR ''l''\<close>
  using assms by (auto simp: content_href_def endsWith_suffix suffix_def)

lemma ext_match:
  assumes \<open>rmatch True after rest = Some (r, ms)\<close>
  shows \<open>rmatch True (Str ''.'' # Alts [''html'', ''xhtml''] # Mark # Str ''"'' # after)
            (''.html'' @ ''"'' @ rest) = Some (r, (''"'' @ rest) # ms)\<close>
    and \<open>rmatch True (Str ''.'' # Alts [''html'', ''xhtml''] # Mark # Str ''"'' # after)
            (''.xhtml'' @ ''"'' @ rest) = Some (r, (''"'' @ rest) # ms)\<close>
  using assms by (simp_all add: ci_simps)

lemma ext_fail:
  \<open>strict_suffix t ''.html'' \<Longrightarrow> rmatch True (Str ''.'' # as) (t @ ''"'' @ rest) = None\<close>
  \<open>strict_suffix t ''.xhtml'' \<Longrightarrow> rmatch True (Str ''.'' # as) (t @ ''"'' @ rest) = None\<close>
  by (auto simp: strict_suffix_def suffix_Cons ci_simps)

lemma capture_match:
  assumes \<open>content_href h\<close> \<open>rmatch True after rest = Some (r, ms)\<close>
  shows \<open>rmatch True
            (Many (NotChr (CHR ''"'')) # Str ''.'' # Alts [''html'', ''xhtml''] # Mark # Str ''"'' # after)
            (h @ ''"'' @ rest) = Some (r, (''"'' @ rest) # ms)\<close>
proof -
  let ?as = \<open>Str ''.'' # Alts [''html'', ''xhtml''] # Mark # Str ''"'' # after\<close>
  from assms(1) obtain n where n: \<open>CHR ''"'' \<notin> set n\<close> \<open>h = n @ ''.html'' \<or> h = n @ ''.xhtml''\<close>
    by (auto simp: content_href_def endsWith_suffix suffix_def)
  have stop: \<open>''"'' @ rest = [] \<or> \<not> in_class (NotChr (CHR ''"'')) (hd (''"'' @ rest))\<close> by simp
  from n(2) show ?thesis
  proof
    assume h: \<open>h = n @ ''.html''\<close>
    have \<open>rmatch True (Many (NotChr (CHR ''"'')) # ?as) (n @ ''.html'' @ ''"'' @ rest)
            = Some (r, (''"'' @ rest) # ms)\<close>
    proof (rule many_some [OF _ stop])
      show \<open>\<forall>c \<in> set (n @ ''.html''). in_class (NotChr (CHR ''"'')) c\<close> using n(1) by auto
      show \<open>rmatch True ?as (''.html'' @ ''"'' @ rest) = Some (r, (''"'' @ rest) # ms)\<close>
        by (rule ext_match [OF assms(2)])
      show \<open>\<forall>t. strict_suffix t ''.html'' \<longrightarrow> rmatch True ?as (t @ ''"'' @ rest) = None\<close>
        using ext_fail by blast
    qed
    then show ?thesis by (simp add: h)
  next
    assume h: \<open>h = n @ ''.xhtml''\<close>
    have \<open>rmatch True (Many (NotChr (CHR ''"'')) # ?as) (n @ ''.xhtml'' @ ''"'' @ rest)
            = Some (r, (''"'' @ rest) # ms)\<close>
    proof (rule many_some [OF _ stop])
      show \<open>\<forall>c \<in> set (n @ ''.xhtml''). in_class (NotChr (CHR ''"'')) c\<close> using n(1) by auto
      show \<open>rmatch True ?as (''.xhtml'' @ ''"'' @ rest) = Some (r, (''"'' @ rest) # ms)\<close>
        by (rule ext_match [OF assms(2)])
      show \<open>\<forall>t. strict_suffix t ''.xhtml'' \<longrightarrow> rmatch True ?as (t @ ''"'' @ rest) = None\<close>
        using ext_fail by blast
    qed
    then show ?thesis by (simp add: h)
  qed
qed

lemma href_value_match:
  assumes \<open>content_href h\<close> \<open>rmatch True after rest = Some (r, ms)\<close>
  shows \<open>rmatch True (href_value_re after) (''href="'' @ h @ ''"'' @ rest)
           = Some (r, (h @ ''"'' @ rest) # (''"'' @ rest) # ms)\<close>
  using capture_match [OF assms] by (simp add: href_value_re_def ci_simps)

lemma href_value_fail:
  \<open>\<not> str_prefix True ''href="'' s \<Longrightarrow> rmatch True (href_value_re after) s = None\<close>
  by (simp add: href_value_re_def)

lemma str_prefix_href:
  assumes \<open>str_prefix True ''href="'' s\<close>
  obtains a b where \<open>s = a @ CHR ''"'' # b\<close> \<open>CHR ''"'' \<notin> set a\<close> \<open>a \<noteq> []\<close> \<open>last a = CHR ''=''\<close>
proof -
  from assms obtain c0 s0 where 0: \<open>s = c0 # s0\<close> \<open>chr_eq True (CHR ''h'') c0\<close> \<open>str_prefix True ''ref="'' s0\<close>
    by (rule str_prefix_ConsE)
  from 0(3) obtain c1 s1 where 1: \<open>s0 = c1 # s1\<close> \<open>chr_eq True (CHR ''r'') c1\<close> \<open>str_prefix True ''ef="'' s1\<close>
    by (rule str_prefix_ConsE)
  from 1(3) obtain c2 s2 where 2: \<open>s1 = c2 # s2\<close> \<open>chr_eq True (CHR ''e'') c2\<close> \<open>str_prefix True ''f="'' s2\<close>
    by (rule str_prefix_ConsE)
  from 2(3) obtain c3 s3 where 3: \<open>s2 = c3 # s3\<close> \<open>chr_eq True (CHR ''f'') c3\<close> \<open>str_prefix True ''="'' s3\<close>
    by (rule str_prefix_ConsE)
  from 3(3) obtain c4 s4 where 4: \<open>s3 = c4 # s4\<close> \<open>chr_eq True (CHR ''='') c4\<close> \<open>str_prefix True ''"'' s4\<close>
    by (rule str_prefix_ConsE)
  from 4(3) obtain c5 s5 where 5: \<open>s4 = c5 # s5\<close> \<open>chr_eq True (CHR ''"'') c5\<close>
    by (rule str_prefix_ConsE)
  have q: \<open>c5 = CHR ''"''\<close> \<open>c4 = CHR ''=''\<close>
    using 5(2) 4(2) by (auto simp: ci_simps)
  have \<open>c0 \<noteq> CHR ''"''\<close> \<open>c1 \<noteq> CHR ''"''\<close> \<open>c2 \<noteq> CHR ''"''\<close> \<open>c3 \<noteq> CHR ''"''\<close>
    using 0(2) 1(2) 2(2) 3(2) by (auto simp: ci_simps)
  then have \<open>CHR ''"'' \<notin> set [c0, c1, c2, c3, c4]\<close> using q by auto
  moreover have \<open>s = [c0, c1, c2, c3, c4] @ CHR ''"'' # s5\<close>
    using 0(1) 1(1) 2(1) 3(1) 4(1) 5(1) q by simp
  ultimately show ?thesis using q by (intro that [of \<open>[c0, c1, c2, c3, c4]\<close> s5]) auto
qed

lemma first_occurrence_unique:
  \<open>x \<notin> set a \<Longrightarrow> x \<notin> set b \<Longrightarrow> a @ x # a' = b @ x # b' \<Longrightarrow> a = b\<close>
proof (induction a arbitrary: b)
  case Nil
  then show ?case by (cases b) auto
next
  case (Cons c a)
  then show ?case by (cases b) auto
qed

lemma no_href_inside:
  assumes \<open>content_href h\<close> \<open>suffix t (h @ ''"/'')\<close>
  shows \<open>\<not> str_prefix True ''href="'' (t @ ''>'' @ rest)\<close>
proof
  assume m: \<open>str_prefix True ''href="'' (t @ ''>'' @ rest)\<close>
  note h = content_href_chars [OF assms(1)]
  from assms(2) consider \<open>suffix t ''"/''\<close> | h' where \<open>suffix h' h\<close> \<open>t = h' @ ''"/''\<close>
    by (auto simp: suffix_append)
  then show False
  proof cases
    case 1
    then have \<open>t = ''"/'' \<or> t = ''/'' \<or> t = []\<close> by (auto simp: suffix_Cons)
    with m show False by (auto simp: ci_simps)
  next
    case 2
    from m obtain a b where ab: \<open>t @ ''>'' @ rest = a @ CHR ''"'' # b\<close> \<open>CHR ''"'' \<notin> set a\<close>
      \<open>a \<noteq> []\<close> \<open>last a = CHR ''=''\<close>
      by (rule str_prefix_href)
    from 2(1) h(1) have nq: \<open>CHR ''"'' \<notin> set h'\<close> by (auto simp: suffix_def)
    from ab(1) have eq: \<open>h' @ CHR ''"'' # (''/>'' @ rest) = a @ CHR ''"'' # b\<close> by (simp add: 2(2))
    have \<open>h' = a\<close> using nq ab(2) eq by (rule first_occurrence_unique)
    with ab(3,4) have \<open>h' \<noteq> []\<close> \<open>last h' = CHR ''=''\<close> by simp_all
    moreover from 2(1) \<open>h' \<noteq> []\<close> have \<open>last h' = last h\<close> by (auto simp: suffix_def)
    ultimately show False using h(4) by simp
  qed
qed

lemma item_match:
  assumes \<open>content_href h\<close>
  shows \<open>rmatch True item_re (item_decl h @ rest) = Some (rest, [h @ ''"/>'' @ rest, ''"/>'' @ rest])\<close>
proof -
  note h = content_href_chars [OF assms]
  let ?after = \<open>[Many (NotChr (CHR ''>'')), Str ''>'']\<close>
  have after: \<open>rmatch True ?after (''/>'' @ rest) = Some (rest, [])\<close> by (simp add: ci_simps)
  have att: \<open>rmatch True (href_value_re ?after) (''href="'' @ h @ ''"'' @ ''/>'' @ rest)
                 = Some (rest, [h @ ''"'' @ ''/>'' @ rest, ''"'' @ ''/>'' @ rest])\<close>
    by (rule href_value_match [OF assms after])
  have \<open>rmatch True (Many (NotChr (CHR ''>'')) # href_value_re ?after)
            ('' '' @ (''href="'' @ h @ ''"/'') @ (''>'' @ rest))
          = Some (rest, [h @ ''"/>'' @ rest, ''"/>'' @ rest])\<close>
  proof (rule many_some)
    show \<open>\<forall>c \<in> set ('' '' @ ''href="'' @ h @ ''"/''). in_class (NotChr (CHR ''>'')) c\<close>
      using h(2) by auto
    show \<open>''>'' @ rest = [] \<or> \<not> in_class (NotChr (CHR ''>'')) (hd (''>'' @ rest))\<close> by simp
    show \<open>rmatch True (href_value_re ?after) ((''href="'' @ h @ ''"/'') @ ''>'' @ rest)
            = Some (rest, [h @ ''"/>'' @ rest, ''"/>'' @ rest])\<close>
      using att by simp
    show \<open>\<forall>t. strict_suffix t (''href="'' @ h @ ''"/'') \<longrightarrow>
              rmatch True (href_value_re ?after) (t @ ''>'' @ rest) = None\<close>
    proof (intro allI impI)
      fix t
      assume \<open>strict_suffix t (''href="'' @ h @ ''"/'')\<close>
      then have \<open>suffix t (''ref="'' @ h @ ''"/'')\<close>
        by (auto simp: strict_suffix_def suffix_Cons)
      then consider \<open>suffix t (h @ ''"/'')\<close>
        | s0 where \<open>t = s0 @ h @ ''"/''\<close> \<open>s0 \<in> {''ref="'', ''ef="'', ''f="'', ''="'', ''"''}\<close>
        by (auto simp: suffix_Cons)
      then have \<open>\<not> str_prefix True ''href="'' (t @ ''>'' @ rest)\<close>
      proof cases
        case 1
        with assms show ?thesis by (rule no_href_inside)
      next
        case 2
        then show ?thesis by (auto simp: ci_simps)
      qed
      then show \<open>rmatch True (href_value_re ?after) (t @ ''>'' @ rest) = None\<close>
        by (rule href_value_fail)
    qed
  qed
  then show ?thesis
    by (simp add: item_re_def item_decl_def ci_simps)
qed

lemma item_re_needs_bracket: \<open>c \<noteq> CHR ''<'' \<Longrightarrow> rmatch True item_re (c # cs) = None\<close>
  by (simp add: item_re_def ci_simps)

lemma match_g_skip:
  \<open>CHR ''<'' \<notin> set before \<Longrightarrow> match_g True item_re (before @ s) = match_g True item_re s\<close>
proof (induction before)
  case Nil
  then show ?case by simp
next
  case (Cons c before)
  then have \<open>c \<noteq> CHR ''<''\<close> by auto
  then have \<open>rmatch True item_re (c # before @ s) = None\<close> by (rule item_re_needs_bracket)
  with Cons show ?case by simp
qed

lemma match_g_item:
  assumes \<open>content_href h\<close>
  shows \<open>match_g True item_re (item_decl h @ rest) = item_decl h # match_g True item_re rest\<close>
proof -
  obtain cs where cs: \<open>item_decl h @ rest = CHR ''<'' # cs\<close>
    by (simp add: item_decl_def)
  have len: \<open>length rest < length (CHR ''<'' # cs)\<close>
    unfolding cs [symmetric] by (simp add: item_decl_def)
  have m: \<open>matched (CHR ''<'' # cs) rest = item_decl h\<close>
    unfolding cs [symmetric] by (simp add: matched_def)
  have \<open>rmatch True item_re (CHR ''<'' # cs) = Some (rest, [h @ ''"/>'' @ rest, ''"/>'' @ rest])\<close>
    unfolding cs [symmetric] by (rule item_match [OF assms])
  then have \<open>match_g True item_re (CHR ''<'' # cs) = item_decl h # match_g True item_re rest\<close>
    using len m by (simp del: length_Cons)
  then show ?thesis by (simp only: cs)
qed

lemma match_g_end: \<open>CHR ''<'' \<notin> set end_text \<Longrightarrow> match_g True item_re end_text = []\<close>
  using match_g_skip [of end_text \<open>[]\<close>] by (simp add: item_re_def)

lemma match_g_manifest:
  assumes \<open>\<forall>(before, h) \<in> set items. CHR ''<'' \<notin> set before \<and> content_href h\<close>
    and \<open>CHR ''<'' \<notin> set end_text\<close>
  shows \<open>match_g True item_re (manifest items end_text) = map (\<lambda>(before, h). item_decl h) items\<close>
  using assms(1)
proof (induction items)
  case Nil
  then show ?case using assms(2) by (simp add: match_g_end)
next
  case (Cons item items)
  obtain before h where item: \<open>item = (before, h)\<close> by (cases item)
  with Cons.prems have b: \<open>CHR ''<'' \<notin> set before\<close> and h: \<open>content_href h\<close> by auto
  from Cons have IH: \<open>match_g True item_re (manifest items end_text) = map (\<lambda>(before, h). item_decl h) items\<close>
    by simp
  show ?case
    by (simp add: item match_g_skip [OF b] match_g_item [OF h] IH)
qed

lemma href_re_item:
  assumes \<open>content_href h\<close>
  shows \<open>match1 True href_re (item_decl h) = Some (''href="'' @ h @ ''"'', h)\<close>
proof -
  have at: \<open>rmatch True (href_value_re []) (''href="'' @ h @ ''"'' @ ''/>'')
              = Some (''/>'', [h @ ''"'' @ ''/>'', ''"'' @ ''/>''])\<close>
    by (rule href_value_match [OF assms]) simp
  have \<open>match1 True href_re (item_decl h) = match1 True href_re (''href="'' @ h @ ''"/>'')\<close>
    by (simp add: item_decl_def href_re_def href_value_fail ci_simps)
  also have \<open>\<dots> = Some (''href="'' @ h @ ''"'', h)\<close>
    using at by (simp add: href_re_def matched_def)
  finally show ?thesis .
qed

lemma push_hrefs_items:
  \<open>\<forall>(before, h) \<in> set items. content_href h \<Longrightarrow>
     push_hrefs base (map (\<lambda>(before, h). item_decl h) items) = map (\<lambda>(before, h). base @ h) items\<close>
  by (induction items) (auto simp: href_re_item)

lemma extractHtmlFilesFromOpf_manifest:
  assumes \<open>\<forall>(before, h) \<in> set items. CHR ''<'' \<notin> set before \<and> content_href h\<close>
    and \<open>CHR ''<'' \<notin> set end_text\<close>
  shows \<open>extractHtmlFilesFromOpf zf (manifest items end_text) = map (\<lambda>(before, h). basePath zf @ h) items\<close>
proof -
  from assms(1) have \<open>\<forall>(before, h) \<in> set items. content_href h\<close> by auto
  then show ?thesis
    by (simp add: extractHtmlFilesFromOpf_def match_g_manifest [OF assms] push_hrefs_items)
qed


section \<open>Reading order of a page\<close>

lemmas pdf_defs = convertTextContentToHtml_def sort_by_def compare_items_def add_item_def
  close_line_def trim_def is_space_def Let_def run_def chr_eq_def

text \<open>
  C2. The comparator returns \<open>yB - yA\<close> for two runs on different lines, so the sort
  puts the run with the larger top-down coordinate first. On a page of height 800, a run
  at the top (at 700 from the bottom, 100 from the top) comes after a run at the bottom
  (at 100 from the bottom, 700 from the top): the order is descending in the top-down
  coordinate, where the claim and the comments of the source have it ascending.
\<close>

theorem sort_puts_bottom_run_first:
  \<open>compare_items \<lparr>view = [0, 0, 600, 800]\<rparr> (run 50 700 ''Top'') (run 50 100 ''Bottom'') = 600
   \<and> map str (sort_by (compare_items \<lparr>view = [0, 0, 600, 800]\<rparr>)
                  [run 50 700 ''Top'', run 50 100 ''Bottom''])
       = [''Bottom'', ''Top'']
   \<and> convertTextContentToHtml [run 50 700 ''Top'', run 50 100 ''Bottom''] \<lparr>view = [0, 0, 600, 800]\<rparr>
       = bottom_then_top\<close>
  by (simp add: pdf_defs bottom_then_top_def)

lemma lines_in_order:
  assumes \<open>140 \<le> view page ! 3\<close>
  shows \<open>convertTextContentToHtml [run 0 100 ''A'', run 20 104 ''B'', run 0 140 ''C''] page = two_lines\<close>
    and \<open>convertTextContentToHtml [run 0 100 ''A'', run 0 140 ''C'', run 20 104 ''B''] page = two_lines\<close>
    and \<open>convertTextContentToHtml [run 20 104 ''B'', run 0 100 ''A'', run 0 140 ''C''] page = two_lines\<close>
    and \<open>convertTextContentToHtml [run 20 104 ''B'', run 0 140 ''C'', run 0 100 ''A''] page = two_lines\<close>
    and \<open>convertTextContentToHtml [run 0 140 ''C'', run 0 100 ''A'', run 20 104 ''B''] page = two_lines\<close>
    and \<open>convertTextContentToHtml [run 0 140 ''C'', run 20 104 ''B'', run 0 100 ''A''] page = two_lines\<close>
  using assms by (simp_all add: pdf_defs two_lines_def)

text \<open>
  C7. The three runs of the claim, at 100, 104 and 140 from the bottom of the page, in
  whatever order they arrive, on a page high enough to hold them, give two lines: A then
  B in the first, C in the second.
\<close>

theorem three_runs_two_lines:
  assumes \<open>140 \<le> view page ! 3\<close>
    and \<open>items \<in> set (arrangements (run 0 100 ''A'') (run 20 104 ''B'') (run 0 140 ''C''))\<close>
  shows \<open>convertTextContentToHtml items page = two_lines\<close>
proof -
  from assms(2) consider
      \<open>items = [run 0 100 ''A'', run 20 104 ''B'', run 0 140 ''C'']\<close>
    | \<open>items = [run 0 100 ''A'', run 0 140 ''C'', run 20 104 ''B'']\<close>
    | \<open>items = [run 20 104 ''B'', run 0 100 ''A'', run 0 140 ''C'']\<close>
    | \<open>items = [run 20 104 ''B'', run 0 140 ''C'', run 0 100 ''A'']\<close>
    | \<open>items = [run 0 140 ''C'', run 0 100 ''A'', run 20 104 ''B'']\<close>
    | \<open>items = [run 0 140 ''C'', run 20 104 ''B'', run 0 100 ''A'']\<close>
    unfolding arrangements_def set_simps insert_iff empty_iff by blast
  then show ?thesis
    using lines_in_order [OF assms(1)] by cases (simp_all only:)
qed

theorem three_runs_two_lines_witness:
  \<open>(140::int) \<le> view \<lparr>view = [0, 0, 600, 800]\<rparr> ! 3
   \<and> [run 0 140 ''C'', run 20 104 ''B'', run 0 100 ''A'']
        \<in> set (arrangements (run 0 100 ''A'') (run 20 104 ''B'') (run 0 140 ''C''))
   \<and> convertTextContentToHtml [run 0 140 ''C'', run 20 104 ''B'', run 0 100 ''A'']
        \<lparr>view = [0, 0, 600, 800]\<rparr> = two_lines\<close>
proof -
  have a: \<open>(140::int) \<le> view \<lparr>view = [0, 0, 600, 800]\<rparr> ! 3\<close> by simp
  have b: \<open>[run 0 140 ''C'', run 20 104 ''B'', run 0 100 ''A'']
        \<in> set (arrangements (run 0 100 ''A'') (run 20 104 ''B'') (run 0 140 ''C''))\<close>
    by (simp add: arrangements_def)
  from three_runs_two_lines [OF a b] a b show ?thesis by blast
qed

text \<open>
  Below that height the first line can fall within 10 units of the initial
  \<^verbatim>\<open>currentY = -1\<close> and is then not taken as the anchor: on a page of height 90, which
  the three runs overshoot, each run is a line of its own.
\<close>

lemma three_runs_on_a_short_page:
  \<open>convertTextContentToHtml [run 0 100 ''A'', run 20 104 ''B'', run 0 140 ''C'']
     \<lparr>view = [0, 0, 600, 90]\<rparr> = three_lines\<close>
  by (simp add: pdf_defs three_lines_def)


section \<open>The progress percentage\<close>

text \<open>The binary exponent of a positive rational, and the rounding to a double below a double.\<close>

lemma bitlen_bounds: \<open>0 < n \<Longrightarrow> 2 ^ (bitlen n - 1) \<le> n \<and> n < 2 ^ bitlen n\<close>
proof (induction n rule: bitlen.induct)
  case (1 n)
  show ?case
  proof (cases \<open>n div 2 = 0\<close>)
    case True
    with 1 have \<open>n = 1\<close> by presburger
    then show ?thesis by (simp add: bitlen.simps [of 1] bitlen.simps [of 0])
  next
    case False
    with 1 have pos: \<open>0 < n div 2\<close> by presburger
    with 1 have IH: \<open>2 ^ (bitlen (n div 2) - 1) \<le> n div 2 \<and> n div 2 < 2 ^ bitlen (n div 2)\<close>
      by simp
    from pos have bl: \<open>0 < bitlen (n div 2)\<close>
      by (subst bitlen.simps) simp
    have eq: \<open>bitlen n = Suc (bitlen (n div 2))\<close>
      using 1(2) by (subst bitlen.simps) simp
    have \<open>(2::int) ^ (bitlen n - 1) = 2 * 2 ^ (bitlen (n div 2) - 1)\<close>
      using bl eq by (cases \<open>bitlen (n div 2)\<close>) simp_all
    also have \<open>\<dots> \<le> 2 * (n div 2)\<close> using IH by simp
    also have \<open>\<dots> \<le> n\<close> by presburger
    finally have lo: \<open>2 ^ (bitlen n - 1) \<le> n\<close> .
    have \<open>n < 2 * (n div 2) + 2\<close> by presburger
    also have \<open>\<dots> \<le> 2 * 2 ^ bitlen (n div 2)\<close> using IH by simp
    finally have hi: \<open>n < 2 ^ bitlen n\<close> using eq by simp
    from lo hi show ?thesis ..
  qed
qed

lemma pow2_powi: \<open>pow2 e = 2 powi e\<close>
  by (simp add: pow2_def power_int_def field_simps)

lemma pow2_pos: \<open>0 < pow2 e\<close>
  by (simp add: pow2_powi)

lemma pow2_add: \<open>pow2 (a + b) = pow2 a * pow2 b\<close>
  by (simp add: pow2_powi power_int_add)

lemma pow2_mono: \<open>a \<le> b \<Longrightarrow> pow2 a \<le> pow2 b\<close>
  by (simp add: pow2_powi power_int_increasing)

lemma pow2_less_cancel: \<open>pow2 a < pow2 b \<Longrightarrow> a < b\<close>
  using pow2_mono [of b a] by (cases \<open>a < b\<close>) auto

lemma pow2_nat: \<open>pow2 (int n) = 2 ^ n\<close>
  by (simp add: pow2_def)

lemma pow2_pred: \<open>0 < n \<Longrightarrow> pow2 (int n - 1) = 2 ^ (n - 1)\<close>
  by (cases n) (simp_all add: pow2_nat)

lemma exponent_bounds:
  assumes \<open>0 < q\<close>
  shows \<open>pow2 (exponent q) \<le> q \<and> q < pow2 (exponent q + 1)\<close>
proof -
  obtain a b where ab: \<open>quotient_of q = (a, b)\<close> by (cases \<open>quotient_of q\<close>)
  from ab have b: \<open>0 < b\<close> by (rule quotient_of_denom_pos)
  from ab have q: \<open>q = of_int a / of_int b\<close> by (rule quotient_of_div)
  from assms q b have a: \<open>0 < a\<close> by (simp add: zero_less_divide_iff)
  define la lb where \<open>la = bitlen a\<close> and \<open>lb = bitlen b\<close>
  define k where \<open>k = int la - int lb\<close>
  from bitlen_bounds [OF a] have A: \<open>2 ^ (la - 1) \<le> a\<close> \<open>a < 2 ^ la\<close> by (simp_all add: la_def)
  from bitlen_bounds [OF b] have B: \<open>2 ^ (lb - 1) \<le> b\<close> \<open>b < 2 ^ lb\<close> by (simp_all add: lb_def)
  from a have la: \<open>0 < la\<close> unfolding la_def by (subst bitlen.simps) simp
  from b have lb: \<open>0 < lb\<close> unfolding lb_def by (subst bitlen.simps) simp
  have Ar: \<open>pow2 (int la - 1) \<le> (of_int a :: rat)\<close> \<open>(of_int a :: rat) < pow2 (int la)\<close>
  proof -
    have \<open>pow2 (int la - 1) = of_int (2 ^ (la - 1))\<close> using la by (simp add: pow2_pred)
    also have \<open>\<dots> \<le> of_int a\<close> using A(1) by (simp only: of_int_le_iff)
    finally show \<open>pow2 (int la - 1) \<le> (of_int a :: rat)\<close> .
    have \<open>(of_int a :: rat) < of_int (2 ^ la)\<close> using A(2) by (simp only: of_int_less_iff)
    then show \<open>(of_int a :: rat) < pow2 (int la)\<close> by (simp add: pow2_nat)
  qed
  have Br: \<open>pow2 (int lb - 1) \<le> (of_int b :: rat)\<close> \<open>(of_int b :: rat) < pow2 (int lb)\<close>
  proof -
    have \<open>pow2 (int lb - 1) = of_int (2 ^ (lb - 1))\<close> using lb by (simp add: pow2_pred)
    also have \<open>\<dots> \<le> of_int b\<close> using B(1) by (simp only: of_int_le_iff)
    finally show \<open>pow2 (int lb - 1) \<le> (of_int b :: rat)\<close> .
    have \<open>(of_int b :: rat) < of_int (2 ^ lb)\<close> using B(2) by (simp only: of_int_less_iff)
    then show \<open>(of_int b :: rat) < pow2 (int lb)\<close> by (simp add: pow2_nat)
  qed
  have bpos: \<open>0 < (of_int b :: rat)\<close> using b by simp
  have lo: \<open>pow2 (k - 1) < q\<close>
  proof -
    have \<open>pow2 (k - 1) * of_int b < pow2 (k - 1) * pow2 (int lb)\<close>
      using Br(2) pow2_pos [of \<open>k - 1\<close>] by simp
    also have \<open>\<dots> = pow2 (int la - 1)\<close>
      by (simp add: k_def pow2_add [symmetric])
    also have \<open>\<dots> \<le> of_int a\<close> by (rule Ar(1))
    finally show ?thesis using bpos by (simp add: q pos_less_divide_eq)
  qed
  have hi: \<open>q < pow2 (k + 1)\<close>
  proof -
    have \<open>of_int a < pow2 (int la)\<close> by (rule Ar(2))
    also have \<open>\<dots> = pow2 (k + 1) * pow2 (int lb - 1)\<close>
      by (simp add: k_def pow2_add [symmetric])
    also have \<open>\<dots> \<le> pow2 (k + 1) * of_int b\<close>
      using Br(1) pow2_pos [of \<open>k + 1\<close>] by simp
    finally show ?thesis using bpos by (simp add: q pos_divide_less_eq)
  qed
  have ex: \<open>exponent q = (if pow2 k \<le> q then k else k - 1)\<close>
    by (simp add: exponent_def ab k_def la_def lb_def Let_def)
  show ?thesis
  proof (cases \<open>pow2 k \<le> q\<close>)
    case True
    then show ?thesis using hi ex by simp
  next
    case False
    then show ?thesis using lo ex by simp
  qed
qed

lemma round_even_le: \<open>x \<le> of_int N \<Longrightarrow> round_even x \<le> N\<close>
proof -
  assume le: \<open>x \<le> of_int N\<close>
  show ?thesis
  proof (cases \<open>x = of_int N\<close>)
    case True
    then show ?thesis by (simp add: round_even_def)
  next
    case False
    with le have \<open>x < of_int N\<close> by simp
    then have \<open>\<lfloor>x\<rfloor> < N\<close> by (simp add: floor_less_iff)
    then show ?thesis by (simp add: round_even_def Let_def)
  qed
qed

lemma round_even_nonneg: \<open>0 \<le> x \<Longrightarrow> 0 \<le> round_even x\<close>
proof -
  assume \<open>0 \<le> x\<close>
  then have \<open>0 \<le> \<lfloor>x\<rfloor>\<close> by simp
  then show ?thesis by (simp add: round_even_def Let_def)
qed

lemma fl_nonneg: \<open>0 \<le> q \<Longrightarrow> 0 \<le> fl q\<close>
  using pow2_pos [of \<open>exponent q - 52\<close>]
  by (auto simp: fl_def intro!: mult_nonneg_nonneg round_even_nonneg)

lemma fl_le:
  assumes q: \<open>0 < q\<close> and le: \<open>q \<le> r\<close> and r: \<open>r = of_int m * pow2 (exponent r - 52)\<close>
  shows \<open>fl q \<le> r\<close>
proof -
  from q le have rpos: \<open>0 < r\<close> by simp
  have \<open>pow2 (exponent q) \<le> q\<close> using exponent_bounds [OF q] by simp
  also have \<open>q \<le> r\<close> by (rule le)
  also have \<open>r < pow2 (exponent r + 1)\<close> using exponent_bounds [OF rpos] by simp
  finally have \<open>exponent q < exponent r + 1\<close> by (rule pow2_less_cancel)
  then have j: \<open>0 \<le> exponent r - exponent q\<close> by simp
  define j where \<open>j = nat (exponent r - exponent q)\<close>
  define u where \<open>u = pow2 (exponent q - 52)\<close>
  have u: \<open>0 < u\<close> by (simp add: u_def pow2_pos)
  have \<open>exponent r - 52 = (exponent q - 52) + int j\<close> using j by (simp add: j_def)
  then have \<open>pow2 (exponent r - 52) = u * 2 ^ j\<close>
    by (simp only: pow2_add pow2_nat u_def)
  then have rN: \<open>r = of_int (m * 2 ^ j) * u\<close> using r by simp
  then have \<open>q / u \<le> of_int (m * 2 ^ j)\<close> using le u by (simp add: pos_divide_le_eq)
  then have \<open>round_even (q / u) \<le> m * 2 ^ j\<close> by (rule round_even_le)
  then have \<open>(of_int (round_even (q / u)) :: rat) \<le> of_int (m * 2 ^ j)\<close>
    by (simp only: of_int_le_iff)
  then have \<open>of_int (round_even (q / u)) * u \<le> of_int (m * 2 ^ j) * u\<close>
    using u by (simp only: mult_le_cancel_right_pos)
  then show ?thesis using q rN by (simp add: fl_def u_def)
qed

lemma exponent_1: \<open>exponent 1 = 0\<close> by code_simp
lemma exponent_100: \<open>exponent 100 = 6\<close> by code_simp

lemma fl_le_1: \<open>0 < q \<Longrightarrow> q \<le> 1 \<Longrightarrow> fl q \<le> 1\<close>
  by (rule fl_le [where m = \<open>2 ^ 52\<close>]) (simp_all add: exponent_1 pow2_def)

lemma fl_le_100: \<open>0 < q \<Longrightarrow> q \<le> 100 \<Longrightarrow> fl q \<le> 100\<close>
  by (rule fl_le [where m = \<open>100 * 2 ^ 46\<close>]) (simp_all add: exponent_100 pow2_def)

lemma percentage_range:
  assumes \<open>1 \<le> cur\<close> \<open>cur \<le> tot\<close>
  shows \<open>0 \<le> percentage_of cur tot \<and> percentage_of cur tot \<le> 100\<close>
proof -
  define q :: rat where \<open>q = of_nat cur / of_nat tot\<close>
  from assms have q: \<open>0 < q\<close> \<open>q \<le> 1\<close> by (simp_all add: q_def)
  define x where \<open>x = fl q * 100\<close>
  have x: \<open>0 \<le> x\<close> \<open>x \<le> 100\<close>
    using fl_nonneg [of q] fl_le_1 [OF q] q by (simp_all add: x_def)
  have y0: \<open>0 \<le> fl x\<close> using x by (simp add: fl_nonneg)
  have y1: \<open>fl x \<le> 100\<close>
  proof (cases \<open>x = 0\<close>)
    case True
    then show ?thesis by (simp add: fl_def)
  next
    case False
    with x have \<open>0 < x\<close> by simp
    then show ?thesis using x(2) by (rule fl_le_100)
  qed
  have \<open>percentage_of cur tot = \<lfloor>fl x + 1 / 2\<rfloor>\<close>
    by (simp add: percentage_of_def Math_round_def x_def q_def)
  moreover have \<open>0 \<le> \<lfloor>fl x + 1 / 2\<rfloor>\<close> using y0 by simp
  moreover have \<open>\<lfloor>fl x + 1 / 2\<rfloor> \<le> 100\<close> using y1 by (simp add: floor_le_iff) 
  ultimately show ?thesis by simp
qed

text \<open>
  The rounding of the quotient to a double is visible: on page 23 of 40 the source
  computes 57, where the exact quotient rounds to 58.
\<close>

lemma percentage_double_rounding:
  \<open>percentage_of 23 40 = 57 \<and> \<lfloor>(23 / 40 * 100 :: rat) + 1 / 2\<rfloor> = 58\<close>
  by code_simp

text \<open>
  C9, as amended. When the total is positive, both effects save the percentage
  \<^verbatim>\<open>Math.round((currentPage / totalPages) * 100)\<close>, computed on doubles: 25 for page
  1 of 4, 100 for page 4 of 4, and a number from 0 to 100 whenever the current page is
  between 1 and the total. When the total is 0 they compute no percentage and save
  nothing.
\<close>

theorem progress_percentage:
  \<open>(0 < tot \<longrightarrow>
      save_on_close cur tot =
        Some \<lparr>currentPage = cur, totalPages = tot,
              percentage = Math_round (fl (fl (of_nat cur / of_nat tot) * 100))\<rparr>
      \<and> auto_save True True cur tot = save_on_close cur tot)
   \<and> save_on_close cur 0 = None
   \<and> auto_save onProgressUpdate autoSaveEnabled cur 0 = None
   \<and> percentage_of 1 4 = 25
   \<and> percentage_of 4 4 = 100
   \<and> (1 \<le> cur \<and> cur \<le> tot \<longrightarrow> 0 \<le> percentage_of cur tot \<and> percentage_of cur tot \<le> 100)\<close>
proof -
  have a: \<open>percentage_of 1 4 = 25\<close> by code_simp
  have b: \<open>percentage_of 4 4 = 100\<close> by code_simp
  show ?thesis
    using a b percentage_range [of cur tot]
    by (simp add: save_on_close_def auto_save_def percentage_of_def)
qed

theorem progress_percentage_witness:
  \<open>(0::nat) < 4 \<and> (1::nat) \<le> 1 \<and> (1::nat) \<le> 4
   \<and> save_on_close 1 4 = Some \<lparr>currentPage = 1, totalPages = 4, percentage = 25\<rparr>
   \<and> 0 \<le> percentage_of 1 4 \<and> percentage_of 1 4 \<le> 100\<close>
  using progress_percentage [of 4 1] by (simp add: percentage_of_def)

text \<open>
  The claim as stated fails where the total is 0: no percentage, and so no percentage
  0, is computed or saved there.
\<close>

theorem percentage_of_zero_total_counterexample:
  \<open>map_option percentage (save_on_close 1 0) \<noteq> Some 0
   \<and> map_option percentage (auto_save True True 1 0) \<noteq> Some 0
   \<and> save_on_close 1 0 = None\<close>
  by (simp add: save_on_close_def auto_save_def)

end
